theory Spec2Isabelle
  imports Complex_Main
begin

section \<open>Python values used by the notebook\<close>

text \<open>
  The notebook on Burrows's Delta (\<^verbatim>\<open>src/unnamed/part_000\<close>) defines
  \<^verbatim>\<open>load_directory\<close> and the class \<^verbatim>\<open>Delta\<close>. A Python string is modelled as a
  \<open>string\<close> whose characters are read as the code points 0 to 255 (strings with a code
  point above 255 are not represented), Python integers as \<open>int\<close>, exceptions as values
  of \<open>error\<close>, and a computation that does not return as \<open>None\<close>.
\<close>

datatype error = IndexError | ValueError | NotFittedError | AttributeError

text \<open>\<^verbatim>\<open>xs[i]\<close> on a Python sequence: negative indices count from the end.\<close>

definition py_index :: "'a list \<Rightarrow> int \<Rightarrow> error + 'a" where
  "py_index xs i =
     (if 0 \<le> i \<and> i < int (length xs) then Inr (xs ! nat i)
      else if i < 0 \<and> - i \<le> int (length xs) then Inr (xs ! nat (int (length xs) + i))
      else Inl IndexError)"

text \<open>\<^verbatim>\<open>xs[start:stop]\<close>: both bounds are clipped to the sequence, never an error.\<close>

definition py_slice :: "'a list \<Rightarrow> int \<Rightarrow> int \<Rightarrow> 'a list" where
  "py_slice xs start stop =
     (let n = int (length xs);
          s = (if start < 0 then max (start + n) 0 else min start n);
          e = (if stop < 0 then max (stop + n) 0 else min stop n)
      in take (nat (e - s)) (drop (nat s) xs))"

text \<open>\<^verbatim>\<open>str.isspace\<close> on the code points 0 to 255, which is what \<^verbatim>\<open>str.split()\<close>
  separates on: tab, line feed, vertical tab, form feed, carriage return, the four
  separators 28..31, the space, the next-line control U+0085 and the no-break space
  U+00A0.\<close>

definition is_space :: "char \<Rightarrow> bool" where
  "is_space c = (of_char c \<in> {9, 10, 11, 12, 13, 28, 29, 30, 31, 32, 133, 160 :: nat})"

text \<open>\<^verbatim>\<open>str.lower\<close> on one code point of 0 to 255: the capitals A to Z, and the
  capitals U+00C0 to U+00DE without the multiplication sign U+00D7, move up by 32;
  every other code point stays.\<close>

definition lower_char :: "char \<Rightarrow> char" where
  "lower_char c =
     (let n = (of_char c :: nat)
      in if (65 \<le> n \<and> n \<le> 90) \<or> (192 \<le> n \<and> n \<le> 214) \<or> (216 \<le> n \<and> n \<le> 222)
         then char_of (n + 32) else c)"

definition lower :: "string \<Rightarrow> string" where
  "lower s = map lower_char s"

text \<open>\<^verbatim>\<open>s.split()\<close>: the maximal runs of non-whitespace characters, in order.\<close>

fun split_acc :: "string \<Rightarrow> string \<Rightarrow> string list" where
  "split_acc cur [] = (if cur = [] then [] else [cur])"
| "split_acc cur (c # cs) =
     (if is_space c then (if cur = [] then split_acc [] cs else cur # split_acc [] cs)
      else split_acc (cur @ [c]) cs)"

definition split_ws :: "string \<Rightarrow> string list" where
  "split_ws s = split_acc [] s"

text \<open>\<^verbatim>\<open>s.split(sep)\<close> for a one-character separator: empty fields are kept, and the
  result always has at least one element.\<close>

fun split_on_acc :: "char \<Rightarrow> string \<Rightarrow> string \<Rightarrow> string list" where
  "split_on_acc sep cur [] = [cur]"
| "split_on_acc sep cur (c # cs) =
     (if c = sep then cur # split_on_acc sep [] cs else split_on_acc sep (cur @ [c]) cs)"

definition split_on :: "char \<Rightarrow> string \<Rightarrow> string list" where
  "split_on sep s = split_on_acc sep [] s"

text \<open>\<^verbatim>\<open>sep.join(xs)\<close>.\<close>

fun join :: "string \<Rightarrow> string list \<Rightarrow> string" where
  "join sep [] = []"
| "join sep [x] = x"
| "join sep (x # y # ys) = x @ sep @ join sep (y # ys)"

definition endswith :: "string \<Rightarrow> string \<Rightarrow> bool" where
  "endswith s suf = (length suf \<le> length s \<and> drop (length s - length suf) s = suf)"

text \<open>\<^verbatim>\<open>s.replace(old, new)\<close> for a non-empty \<open>old\<close> (the notebook passes
  \<^verbatim>\<open>'.txt'\<close>): occurrences are replaced from left to right without overlap.\<close>

fun replace_str :: "string \<Rightarrow> string \<Rightarrow> string \<Rightarrow> string" where
  "replace_str old new [] = []"
| "replace_str old new (c # cs) =
     (if old \<noteq> [] \<and> take (length old) (c # cs) = old
      then new @ replace_str old new (drop (length old - 1) cs)
      else c # replace_str old new cs)"

text \<open>\<^verbatim>\<open>os.path.splitext\<close> on a directory entry's name (which holds no path separator):
  the extension starts at the last dot, unless only dots precede that dot.\<close>

definition rfind_dot :: "string \<Rightarrow> nat option" where
  "rfind_dot p =
     (case filter (\<lambda>i. p ! i = CHR ''.'') (rev [0..<length p]) of [] \<Rightarrow> None | i # _ \<Rightarrow> Some i)"

definition splitext :: "string \<Rightarrow> string \<times> string" where
  "splitext p =
     (case rfind_dot p of
        None \<Rightarrow> (p, [])
      | Some dotIndex \<Rightarrow>
          if \<exists>c \<in> set (take dotIndex p). c \<noteq> CHR ''.''
          then (take dotIndex p, drop dotIndex p) else (p, []))"

text \<open>\<^verbatim>\<open>str(n)\<close> for an integer, as the f-string \<^verbatim>\<open>f"{title}-{segm_cnt}"\<close> prints it.\<close>

fun str_nat :: "nat \<Rightarrow> string" where
  "str_nat n =
     (if n < 10 then [''0123456789'' ! n]
      else str_nat (n div 10) @ [''0123456789'' ! (n mod 10)])"

definition str_int :: "int \<Rightarrow> string" where
  "str_int i = (if i < 0 then CHR ''-'' # str_nat (nat (- i)) else str_nat (nat i))"

section \<open>The segmenter: \<^verbatim>\<open>load_directory\<close>\<close>

text \<open>
  A directory is the list of its entries in the order \<^verbatim>\<open>os.scandir\<close> yields them; an
  entry is a file's name and its decoded content. The three result lists grow together,
  so they are one record.
\<close>

record dir_entry =
  entry_name :: string
  entry_contents :: string

record corpus =
  documents :: "string list"
  authors :: "string list"
  titles :: "string list"

definition empty_corpus :: corpus where
  "empty_corpus = \<lparr>documents = [], authors = [], titles = []\<rparr>"

text \<open>
  One pass of the body of \<^verbatim>\<open>while end_idx < len(lemmas)\<close>: the slice is joined and
  appended, then \<^verbatim>\<open>author[0]\<close>, then element 1 of the underscore-split file name;
  either index can raise.
\<close>

definition segment_step ::
  "string \<Rightarrow> string \<Rightarrow> string list \<Rightarrow> int \<Rightarrow> int \<Rightarrow> int \<Rightarrow> corpus \<Rightarrow> error + corpus" where
  "segment_step fname author lemmas start_idx end_idx segm_cnt acc =
     (let doc = join '' '' (py_slice lemmas start_idx end_idx) in
      case py_index author 0 of
        Inl e \<Rightarrow> Inl e
      | Inr a \<Rightarrow>
          (case py_index (split_on CHR ''_'' (replace_str ''.txt'' [] fname)) 1 of
             Inl e \<Rightarrow> Inl e
           | Inr title \<Rightarrow>
               Inr \<lparr>documents = documents acc @ [doc],
                    authors = authors acc @ [[a]],
                    titles = titles acc @ [title @ ''-'' @ str_int segm_cnt]\<rparr>))"

text \<open>The loop itself. It does not return when \<open>max_length \<le> 0\<close> and the test holds
  once, so it is a partial function: \<open>None\<close> is "no result".\<close>

partial_function (option) segment_loop ::
  "string \<Rightarrow> string \<Rightarrow> string list \<Rightarrow> int \<Rightarrow> int \<Rightarrow> int \<Rightarrow> int \<Rightarrow> corpus
     \<Rightarrow> (error + corpus) option" where
  "segment_loop fname author lemmas max_length start_idx end_idx segm_cnt acc =
     (if end_idx < int (length lemmas) then
        (case segment_step fname author lemmas start_idx end_idx segm_cnt acc of
           Inl e \<Rightarrow> Some (Inl e)
         | Inr acc' \<Rightarrow>
             segment_loop fname author lemmas max_length
               (start_idx + max_length) (end_idx + max_length) (segm_cnt + 1) acc')
      else Some (Inr acc))"

declare segment_loop.simps [code]

text \<open>The body of the \<^verbatim>\<open>for\<close> loop for one entry whose name ends in \<^verbatim>\<open>.txt\<close>.\<close>

definition load_file :: "dir_entry \<Rightarrow> int \<Rightarrow> corpus \<Rightarrow> (error + corpus) option" where
  "load_file e max_length acc =
     (let author = fst (splitext (entry_name e));
          lemmas = split_ws (lower (entry_contents e))
      in segment_loop (entry_name e) author lemmas max_length 0 max_length 1 acc)"

fun load_entries :: "dir_entry list \<Rightarrow> int \<Rightarrow> corpus \<Rightarrow> (error + corpus) option" where
  "load_entries [] max_length acc = Some (Inr acc)"
| "load_entries (e # es) max_length acc =
     (if \<not> endswith (entry_name e) ''.txt'' then load_entries es max_length acc
      else (case load_file e max_length acc of
              None \<Rightarrow> None
            | Some (Inl err) \<Rightarrow> Some (Inl err)
            | Some (Inr acc') \<Rightarrow> load_entries es max_length acc'))"

definition load_directory :: "dir_entry list \<Rightarrow> int \<Rightarrow> (error + corpus) option" where
  "load_directory directory max_length = load_entries directory max_length empty_corpus"

text \<open>The number of whitespace-separated tokens of a source text.\<close>

definition token_count :: "string \<Rightarrow> nat" where
  "token_count T = length (split_ws (lower T))"


section \<open>Library operations the notebook calls\<close>

text \<open>
  The notebook imports its numeric operations from scikit-learn, SciPy and NumPy; their
  code is not part of the sources. Each is modelled below from the specification and the
  library's documented contract, over exact real numbers instead of IEEE doubles (no
  rounding, no overflow, no NaN), with every input check that raises kept as a branch.
\<close>

type_synonym vec = "real list"
type_synonym matrix = "real list list"

text \<open>Modelled from the spec: the input validation shared by the Normalizer and the
  Standardizer (\<^verbatim>\<open>sklearn.utils.check_array\<close>, called by \<^verbatim>\<open>normalize\<close>,
  \<^verbatim>\<open>StandardScaler.fit\<close> and \<^verbatim>\<open>StandardScaler.transform\<close>). A two-dimensional array
  is accepted only with at least one row and at least one column; nested lists of unequal
  length are no array. Everything else raises \<^verbatim>\<open>ValueError\<close>.\<close>

definition check_array :: "matrix \<Rightarrow> error + matrix" where
  "check_array X =
     (case X of
        [] \<Rightarrow> Inl ValueError
      | r # rs \<Rightarrow>
          if r = [] \<or> \<not> list_all (\<lambda>r'. length r' = length r) rs then Inl ValueError
          else Inr X)"

text \<open>Modelled from the spec: the number of columns of an array (NumPy's
  \<^verbatim>\<open>X.shape[1]\<close>), read off the first row.\<close>

definition n_features :: "matrix \<Rightarrow> nat" where
  "n_features X = (case X of [] \<Rightarrow> 0 | r # _ \<Rightarrow> length r)"

text \<open>Modelled from the spec: column \<open>j\<close> of an array (NumPy's \<^verbatim>\<open>X[:, j]\<close>).\<close>

definition column :: "matrix \<Rightarrow> nat \<Rightarrow> vec" where
  "column X j = map (\<lambda>row. row ! j) X"

text \<open>Modelled from the spec: the arithmetic mean of a feature over the training rows
  (\<^verbatim>\<open>StandardScaler.mean_\<close>).\<close>

definition mean :: "vec \<Rightarrow> real" where
  "mean xs = sum_list xs / real (length xs)"

text \<open>Modelled from the spec: the population variance of a feature over the training
  rows (\<^verbatim>\<open>StandardScaler.var_\<close>): the squared deviations from the mean are divided by
  the number of rows, not by one less.\<close>

definition variance :: "vec \<Rightarrow> real" where
  "variance xs = sum_list (map (\<lambda>x. (x - mean xs)\<^sup>2) xs) / real (length xs)"

text \<open>The population standard deviation in the specification's words: the square root
  of the mean squared deviation from the mean, the sum divided by the number of values
  (not by one less). It is the yardstick the fitted scale is compared with.\<close>

definition population_std :: "vec \<Rightarrow> real" where
  "population_std xs =
     sqrt ((\<Sum>x\<leftarrow>xs. (x - (\<Sum>y\<leftarrow>xs. y) / real (length xs))\<^sup>2) / real (length xs))"

text \<open>Modelled from the spec: the fallback for a zero divisor
  (\<^verbatim>\<open>sklearn.preprocessing._data._handle_zeros_in_scale\<close>): a scale or norm of zero is
  replaced by one. (The library also takes a value within rounding error of zero for zero;
  in exact arithmetic that is zero itself.)\<close>

definition handle_zeros_in_scale :: "real \<Rightarrow> real" where
  "handle_zeros_in_scale s = (if s = 0 then 1 else s)"

text \<open>Modelled from the spec: the divisor of the Normalizer for one row
  (\<^verbatim>\<open>sklearn.preprocessing.normalize\<close> with \<^verbatim>\<open>norm='l1'\<close>): the sum of the absolute
  values of the row, with the zero fallback.\<close>

definition row_norm :: "vec \<Rightarrow> real" where
  "row_norm v = handle_zeros_in_scale (sum_list (map abs v))"

text \<open>Modelled from the spec: the Normalizer on one row: each entry divided by the
  row's divisor.\<close>

definition normalize_row :: "vec \<Rightarrow> vec" where
  "normalize_row v = map (\<lambda>x. x / row_norm v) v"

text \<open>Modelled from the spec: the Normalizer on a matrix
  (\<^verbatim>\<open>preprocessing.normalize(X, norm='l1')\<close>): validation, then every row on its own.\<close>

definition normalize_l1 :: "matrix \<Rightarrow> error + matrix" where
  "normalize_l1 X = (case check_array X of Inl e \<Rightarrow> Inl e | Inr X' \<Rightarrow> Inr (map normalize_row X'))"

text \<open>Modelled from the spec: the Standardizer object (\<^verbatim>\<open>sklearn.preprocessing.StandardScaler\<close>):
  the mean-centering flag and, once fitted, the per-feature mean and scale.\<close>

record standard_scaler =
  with_mean :: bool
  stats :: "(vec \<times> vec) option"

text \<open>Modelled from the spec: the constructor \<^verbatim>\<open>StandardScaler(with_mean=...)\<close>; a new
  Standardizer is unfitted.\<close>

definition StandardScaler :: "bool \<Rightarrow> standard_scaler" where
  "StandardScaler wm = \<lparr>with_mean = wm, stats = None\<rparr>"

text \<open>Modelled from the spec: the per-feature mean stored by the Standardizer's
  \<^verbatim>\<open>fit\<close> (\<^verbatim>\<open>StandardScaler.mean_\<close>).\<close>

definition fitted_mean :: "matrix \<Rightarrow> vec" where
  "fitted_mean X = map (\<lambda>j. mean (column X j)) [0..<n_features X]"

text \<open>Modelled from the spec: the per-feature scale stored by the Standardizer's
  \<^verbatim>\<open>fit\<close> (\<^verbatim>\<open>StandardScaler.scale_\<close>): the population standard deviation of that
  feature across the training rows, a zero standard deviation replaced by one.\<close>

definition fitted_scale :: "matrix \<Rightarrow> vec" where
  "fitted_scale X =
     map (\<lambda>j. handle_zeros_in_scale (sqrt (variance (column X j)))) [0..<n_features X]"

text \<open>Modelled from the spec: \<^verbatim>\<open>StandardScaler.fit\<close>: validation, then the statistics
  of the training matrix are stored. The scaler is returned with its new state.\<close>

definition scaler_fit :: "standard_scaler \<Rightarrow> matrix \<Rightarrow> standard_scaler \<times> (error + unit)" where
  "scaler_fit sc X =
     (case check_array X of
        Inl e \<Rightarrow> (sc, Inl e)
      | Inr X' \<Rightarrow> (sc\<lparr>stats := Some (fitted_mean X', fitted_scale X')\<rparr>, Inr ()))"

text \<open>Modelled from the spec: the Standardizer on one row: the fitted mean is
  subtracted only when mean-centering is enabled, then each entry is divided by the fitted
  scale of its feature.\<close>

definition standardize_row :: "bool \<Rightarrow> vec \<Rightarrow> vec \<Rightarrow> vec \<Rightarrow> vec" where
  "standardize_row wm mu sigma row =
     map2 (\<lambda>x s. x / s) (if wm then map2 (\<lambda>x m. x - m) row mu else row) sigma"

text \<open>Modelled from the spec: \<^verbatim>\<open>StandardScaler.transform\<close>: fails on an unfitted
  scaler, on an invalid array and on a width other than the fitted one; otherwise each
  row is rescaled with the statistics stored by \<^verbatim>\<open>fit\<close>. The scaler is returned as the
  call leaves it.\<close>

definition scaler_transform ::
  "standard_scaler \<Rightarrow> matrix \<Rightarrow> standard_scaler \<times> (error + matrix)" where
  "scaler_transform sc X =
     (case stats sc of
        None \<Rightarrow> (sc, Inl NotFittedError)
      | Some (mu, sigma) \<Rightarrow>
          (case check_array X of
             Inl e \<Rightarrow> (sc, Inl e)
           | Inr X' \<Rightarrow>
               if n_features X' \<noteq> length sigma then (sc, Inl ValueError)
               else (sc, Inr (map (standardize_row (with_mean sc) mu sigma) X'))))"

text \<open>Modelled from the spec: \<^verbatim>\<open>fit_transform\<close> of the library's transformer base
  class: \<^verbatim>\<open>fit(X)\<close> followed by \<^verbatim>\<open>transform(X)\<close> on the same object.\<close>

definition scaler_fit_transform ::
  "standard_scaler \<Rightarrow> matrix \<Rightarrow> standard_scaler \<times> (error + matrix)" where
  "scaler_fit_transform sc X =
     (case scaler_fit sc X of
        (sc', Inl e) \<Rightarrow> (sc', Inl e)
      | (sc', Inr _) \<Rightarrow> scaler_transform sc' X)"

text \<open>A distance metric is a function of two vectors. SciPy selects it by name
  (\<^verbatim>\<open>'cityblock'\<close>, \<^verbatim>\<open>'cosine'\<close>, ...); a name it does not know is not represented.\<close>

type_synonym metric = "vec \<Rightarrow> vec \<Rightarrow> real"

text \<open>Modelled from the spec: the city-block (L1, Manhattan) distance, SciPy's metric
  \<^verbatim>\<open>'cityblock'\<close> and the default of \<^verbatim>\<open>Delta.predict\<close>.\<close>

definition cityblock :: metric where
  "cityblock u v = sum_list (map2 (\<lambda>a b. \<bar>a - b\<bar>) u v)"

text \<open>Modelled from the spec: the pairwise distance matrix
  (\<^verbatim>\<open>scipy.spatial.distance.cdist(XA, XB, metric)\<close>): entry \<open>[i][j]\<close> is the distance
  between row \<open>i\<close> of \<open>XA\<close> and row \<open>j\<close> of \<open>XB\<close>; arrays of different widths raise
  \<^verbatim>\<open>ValueError\<close>.\<close>

definition cdist :: "matrix \<Rightarrow> matrix \<Rightarrow> metric \<Rightarrow> error + matrix" where
  "cdist XA XB m =
     (if list_all (\<lambda>a. list_all (\<lambda>b. length a = length b) XB) XA
      then Inr (map (\<lambda>a. map (\<lambda>b. m a b) XB) XA) else Inl ValueError)"

text \<open>Modelled from the spec: the stable argmin of one row (\<^verbatim>\<open>numpy.argmin\<close>): a scan
  from the left that replaces the best index only on a strictly smaller value, so that the
  first of several equal minima is returned; an empty row raises \<^verbatim>\<open>ValueError\<close>.\<close>

fun argmin_from :: "vec \<Rightarrow> nat \<Rightarrow> nat \<Rightarrow> real \<Rightarrow> nat" where
  "argmin_from [] i best_i best = best_i"
| "argmin_from (x # xs) i best_i best =
     (if x < best then argmin_from xs (i + 1) i x else argmin_from xs (i + 1) best_i best)"

definition argmin :: "vec \<Rightarrow> error + nat" where
  "argmin xs = (case xs of [] \<Rightarrow> Inl ValueError | x # rest \<Rightarrow> Inr (argmin_from rest 1 0 x))"

text \<open>Modelled from the spec: \<^verbatim>\<open>numpy.argmin(dists, axis=1)\<close>: the argmin of every row,
  in row order; the first failing row fails the call.\<close>

fun argmin_rows :: "matrix \<Rightarrow> error + nat list" where
  "argmin_rows [] = Inr []"
| "argmin_rows (r # rs) =
     (case argmin r of
        Inl e \<Rightarrow> Inl e
      | Inr j \<Rightarrow> (case argmin_rows rs of Inl e \<Rightarrow> Inl e | Inr js \<Rightarrow> Inr (j # js)))"

text \<open>Modelled from the spec: indexing the label array with an array of indices
  (\<^verbatim>\<open>train_y[idx]\<close> in NumPy): an index outside the array raises \<^verbatim>\<open>IndexError\<close>.\<close>

definition take_labels :: "'l list \<Rightarrow> nat list \<Rightarrow> error + 'l list" where
  "take_labels ys idx =
     (if list_all (\<lambda>j. j < length ys) idx then Inr (map (\<lambda>j. ys ! j) idx) else Inl IndexError)"

section \<open>The vectorizer\<close>

text \<open>
  The notebook builds \<^verbatim>\<open>text.CountVectorizer(token_pattern=r"(?u)\b\w+\b", vocabulary=vocab)\<close>
  and calls \<^verbatim>\<open>fit_transform\<close> and \<^verbatim>\<open>transform\<close> on it; with a supplied vocabulary both
  count against that vocabulary and nothing is learned from the documents.
\<close>

text \<open>Modelled from the spec: a word character of the token pattern (\<^verbatim>\<open>\w\<close>) on the
  code points 0 to 255: the digits, the letters A to Z and a to z, the underscore, and
  above 127 the letters and numeric signs (U+00AA, U+00B2, U+00B3, U+00B5, U+00B9, U+00BA,
  U+00BC to U+00BE, U+00C0 to U+00FF without the signs U+00D7 and U+00F7).\<close>

definition is_word_char :: "char \<Rightarrow> bool" where
  "is_word_char c =
     (let n = (of_char c :: nat)
      in (48 \<le> n \<and> n \<le> 57) \<or> (65 \<le> n \<and> n \<le> 90) \<or> n = 95 \<or> (97 \<le> n \<and> n \<le> 122)
         \<or> n = 170 \<or> n = 178 \<or> n = 179 \<or> n = 181 \<or> n = 185 \<or> n = 186
         \<or> (188 \<le> n \<and> n \<le> 190) \<or> (192 \<le> n \<and> n \<le> 214) \<or> (216 \<le> n \<and> n \<le> 246)
         \<or> (248 \<le> n \<and> n \<le> 255))"

text \<open>Modelled from the spec: word-boundary token matching (\<^verbatim>\<open>re.findall\<close> of the
  pattern \<^verbatim>\<open>\b\w+\b\<close>): the maximal runs of word characters, from left to right.\<close>

fun tokens_acc :: "string \<Rightarrow> string \<Rightarrow> string list" where
  "tokens_acc cur [] = (if cur = [] then [] else [cur])"
| "tokens_acc cur (c # cs) =
     (if is_word_char c then tokens_acc (cur @ [c]) cs
      else (if cur = [] then tokens_acc [] cs else cur # tokens_acc [] cs))"

definition tokenize :: "string \<Rightarrow> string list" where
  "tokenize s = tokens_acc [] s"

text \<open>Modelled from the spec: a document's token stream (the analyzer of
  \<^verbatim>\<open>CountVectorizer\<close> with its default \<^verbatim>\<open>lowercase=True\<close>): the document is lowercased,
  then tokenized.\<close>

definition analyze :: "string \<Rightarrow> string list" where
  "analyze doc = tokenize (lower doc)"

text \<open>Modelled from the spec: the index mapping of a supplied vocabulary: token \<open>j\<close> of
  the list gets feature index \<open>j\<close>; a token listed twice raises \<^verbatim>\<open>ValueError\<close>.\<close>

fun build_vocab :: "string list \<Rightarrow> nat \<Rightarrow> (string \<rightharpoonup> nat) \<Rightarrow> error + (string \<rightharpoonup> nat)" where
  "build_vocab [] i vocab = Inr vocab"
| "build_vocab (t # ts) i vocab =
     (case vocab t of
        Some k \<Rightarrow> Inl ValueError
      | None \<Rightarrow> build_vocab ts (i + 1) (vocab(t \<mapsto> i)))"

text \<open>Modelled from the spec: the vocabulary check of the Vectorizer: fails if the
  vocabulary has a repeated token or is empty.\<close>

definition validate_vocabulary :: "string list \<Rightarrow> error + (string \<rightharpoonup> nat)" where
  "validate_vocabulary vocabulary =
     (case build_vocab vocabulary 0 Map.empty of
        Inl e \<Rightarrow> Inl e
      | Inr vocab \<Rightarrow> if vocabulary = [] then Inl ValueError else Inr vocab)"

text \<open>Modelled from the spec: counting one document: every token of the stream that
  the vocabulary maps to an index adds one to that entry of the row; a token outside the
  vocabulary is skipped.\<close>

fun count_tokens :: "(string \<rightharpoonup> nat) \<Rightarrow> string list \<Rightarrow> nat list \<Rightarrow> nat list" where
  "count_tokens vocab [] row = row"
| "count_tokens vocab (t # ts) row =
     (case vocab t of
        None \<Rightarrow> count_tokens vocab ts row
      | Some j \<Rightarrow> count_tokens vocab ts (row[j := row ! j + 1]))"

text \<open>Modelled from the spec: \<^verbatim>\<open>vectorizer.transform(documents).toarray()\<close> (and
  \<^verbatim>\<open>fit_transform\<close>, which is the same with a supplied vocabulary): one row of counts per
  document, starting from zeros, with one column per vocabulary token.\<close>

definition vectorizer_transform :: "string list \<Rightarrow> string list \<Rightarrow> error + nat list list" where
  "vectorizer_transform vocabulary docs =
     (case validate_vocabulary vocabulary of
        Inl e \<Rightarrow> Inl e
      | Inr vocab \<Rightarrow>
          Inr (map (\<lambda>doc. count_tokens vocab (analyze doc) (replicate (length vocabulary) 0))
                 docs))"

section \<open>The classifier: \<^verbatim>\<open>class Delta\<close>\<close>

text \<open>
  A \<^verbatim>\<open>Delta\<close> object has the attributes \<^verbatim>\<open>train_y\<close>, \<^verbatim>\<open>scaler\<close> and \<^verbatim>\<open>train_X\<close>, none of
  which exists before \<^verbatim>\<open>fit\<close>. Both methods take the object and return it as the call
  leaves it, together with the outcome of the call.
\<close>

record 'l delta =
  train_y :: "'l list option"
  scaler :: "standard_scaler option"
  train_X :: "matrix option"

definition Delta :: "'l delta" where
  "Delta = \<lparr>train_y = None, scaler = None, train_X = None\<rparr>"

text \<open>\<^verbatim>\<open>Delta.fit\<close>: the three assignments in source order. The label sequence is stored
  before the scaler sees \<open>X\<close>, and nothing compares it with \<open>X\<close>.\<close>

definition fit :: "'l delta \<Rightarrow> matrix \<Rightarrow> 'l list \<Rightarrow> 'l delta \<times> (error + unit)" where
  "fit self X y =
     (let self1 = self\<lparr>train_y := Some y\<rparr>;
          self2 = self1\<lparr>scaler := Some (StandardScaler False)\<rparr>
      in case scaler_fit_transform (StandardScaler False) X of
           (sc, Inl e) \<Rightarrow> (self2\<lparr>scaler := Some sc\<rparr>, Inl e)
         | (sc, Inr X') \<Rightarrow> (self2\<lparr>scaler := Some sc, train_X := Some X'\<rparr>, Inr ()))"

text \<open>\<^verbatim>\<open>Delta.predict\<close>: transform with the stored scaler, distances to the stored
  reference rows, argmin of every row, labels at those indices. A missing attribute
  raises \<^verbatim>\<open>AttributeError\<close>. The method assigns no attribute; the scaler object is the
  one \<^verbatim>\<open>transform\<close> hands back.\<close>

definition predict :: "'l delta \<Rightarrow> matrix \<Rightarrow> metric \<Rightarrow> 'l delta \<times> (error + 'l list)" where
  "predict self X m =
     (case scaler self of
        None \<Rightarrow> (self, Inl AttributeError)
      | Some sc \<Rightarrow>
          (case scaler_transform sc X of
             (sc', Inl e) \<Rightarrow> (self\<lparr>scaler := Some sc'\<rparr>, Inl e)
           | (sc', Inr X') \<Rightarrow>
               (let self' = self\<lparr>scaler := Some sc'\<rparr> in
                case train_X self' of
                  None \<Rightarrow> (self', Inl AttributeError)
                | Some ref \<Rightarrow>
                    (case cdist X' ref m of
                       Inl e \<Rightarrow> (self', Inl e)
                     | Inr dists \<Rightarrow>
                         (case train_y self' of
                            None \<Rightarrow> (self', Inl AttributeError)
                          | Some ys \<Rightarrow>
                              (case argmin_rows dists of
                                 Inl e \<Rightarrow> (self', Inl e)
                               | Inr idx \<Rightarrow> (self', take_labels ys idx)))))))"


section \<open>The segmenter: what the loop returns\<close>



lemma segment_step_documents:
  "segment_step fname author lemmas s e c acc = Inr acc' \<Longrightarrow>
     documents acc' = documents acc @ [join '' '' (py_slice lemmas s e)]"
  by (auto simp: segment_step_def Let_def split: sum.splits)


lemma segment_loop_count:
  assumes "0 < L"
    and "\<And>s e c acc. \<exists>acc'. segment_step fname author lemmas s e c acc = Inr acc'"
  shows "\<exists>acc'. segment_loop fname author lemmas L s e c acc = Some (Inr acc') \<and>
           int (length (documents acc')) = int (length (documents acc)) +
             (if e < int (length lemmas) then (int (length lemmas) - 1 - e) div L + 1 else 0)"
proof (induction "nat (int (length lemmas) - e)" arbitrary: s e c acc rule: less_induct)
  case less
  show ?case
  proof (cases "e < int (length lemmas)")
    case False
    then show ?thesis by (subst segment_loop.simps) simp
  next
    case True
    from assms(2) obtain acc1 where st: "segment_step fname author lemmas s e c acc = Inr acc1"
      by blast
    have len1: "length (documents acc1) = length (documents acc) + 1"
      using segment_step_documents[OF st] by simp
    have "nat (int (length lemmas) - (e + L)) < nat (int (length lemmas) - e)"
      using True assms(1) by linarith
    from less[OF this, of "s + L" "c + 1" acc1]
    obtain acc' where loop: "segment_loop fname author lemmas L (s + L) (e + L) (c + 1) acc1 = Some (Inr acc')"
      and cnt: "int (length (documents acc')) = int (length (documents acc1)) +
             (if e + L < int (length lemmas) then (int (length lemmas) - 1 - (e + L)) div L + 1 else 0)"
      by blast
    have arith: "(if e + L < int (length lemmas) then (int (length lemmas) - 1 - (e + L)) div L + 1 else 0) + 1
        = (int (length lemmas) - 1 - e) div L + 1"
    proof (cases "e + L < int (length lemmas)")
      case True
      have "(int (length lemmas) - 1 - e - L) div L = (int (length lemmas) - 1 - e) div L - 1"
        using assms(1) div_add_self2[of L "int (length lemmas) - 1 - e - L"] by simp
      then show ?thesis using True by (simp add: algebra_simps)
    next
      case False
      have "(int (length lemmas) - 1 - e) div L = 0"
        using False \<open>e < int (length lemmas)\<close> assms(1) by (intro div_pos_pos_trivial) auto
      then show ?thesis using False by simp
    qed
    have "segment_loop fname author lemmas L s e c acc = Some (Inr acc')"
      using True st loop by (subst segment_loop.simps) simp
    moreover have "int (length (documents acc')) = int (length (documents acc)) +
             ((int (length lemmas) - 1 - e) div L + 1)"
      using cnt len1 arith by linarith
    ultimately show ?thesis using True by simp
  qed
qed


lemma splitext_root_nonempty: "p \<noteq> [] \<Longrightarrow> fst (splitext p) \<noteq> []"
proof (cases "rfind_dot p")
  case None
  assume "p \<noteq> []"
  with None show ?thesis by (simp add: splitext_def)
next
  case (Some i)
  assume ne: "p \<noteq> []"
  show ?thesis
  proof (cases "\<exists>c \<in> set (take i p). c \<noteq> CHR ''.''")
    case True
    then have "0 < i" by (cases i) auto
    with Some True ne show ?thesis by (simp add: splitext_def)
  next
    case False
    with Some ne show ?thesis by (simp add: splitext_def)
  qed
qed

lemma split_on_acc_nonempty: "split_on_acc c cur s \<noteq> []"
  by (induction s arbitrary: cur) auto

lemma split_on_acc_length: "c \<in> set s \<Longrightarrow> 2 \<le> length (split_on_acc c cur s)"
proof (induction s arbitrary: cur)
  case Nil
  then show ?case by simp
next
  case (Cons a s)
  show ?case
  proof (cases "a = c")
    case True
    have "1 \<le> length (split_on_acc c [] s)"
      using split_on_acc_nonempty[of c "[]" s] by (cases "split_on_acc c [] s") auto
    with True show ?thesis by simp
  next
    case False
    with Cons show ?thesis by simp
  qed
qed




lemma segment_step_titled:
  assumes "author \<noteq> []" and "2 \<le> length (split_on CHR ''_'' (replace_str ''.txt'' [] fname))"
  shows "\<exists>acc'. segment_step fname author lemmas s e c acc = Inr acc'"
  using assms by (auto simp: segment_step_def py_index_def Let_def split: sum.splits)




lemma load_file_count:
  assumes "0 < L" and "entry_name e \<noteq> []"
    and "2 \<le> length (split_on CHR ''_'' (replace_str ''.txt'' [] (entry_name e)))"
  shows "\<exists>acc'. load_file e L acc = Some (Inr acc') \<and>
           length (documents acc') =
             length (documents acc) + (token_count (entry_contents e) - 1) div nat L"
proof -
  let ?lem = "split_ws (lower (entry_contents e))"
  let ?n = "int (length ?lem)"
  have step: "\<And>s e' c acc. \<exists>acc'. segment_step (entry_name e) (fst (splitext (entry_name e))) ?lem s e' c acc = Inr acc'"
    using assms(2,3) by (intro segment_step_titled splitext_root_nonempty)
  from segment_loop_count[OF assms(1) step, of 0 L 1 acc]
  obtain acc' where loop: "load_file e L acc = Some (Inr acc')"
    and cnt: "int (length (documents acc')) = int (length (documents acc)) +
             (if L < ?n then (?n - 1 - L) div L + 1 else 0)"
    unfolding load_file_def Let_def by blast
  have "(if L < ?n then (?n - 1 - L) div L + 1 else 0) = int ((length ?lem - 1) div nat L)"
  proof (cases "L < ?n")
    case True
    then have pos: "1 \<le> length ?lem" using assms(1) by linarith
    have "(?n - 1 - L) div L + 1 = (?n - 1) div L"
      using assms(1) div_add_self2[of L "?n - 1 - L"] by simp
    also have "\<dots> = int ((length ?lem - 1) div nat L)"
      using pos assms(1) by (simp add: zdiv_int)
    finally show ?thesis using True by simp
  next
    case False
    then have "length ?lem - 1 < nat L" using assms(1) by linarith
    then show ?thesis using False by simp
  qed
  with cnt have "length (documents acc') = length (documents acc) + (length ?lem - 1) div nat L"
    by linarith
  with loop show ?thesis by (auto simp: token_count_def)
qed


text \<open>
  C2. The claim: for every source text \<open>T\<close> and chunk length \<open>L > 0\<close> the per-file loop
  produces \<open>floor(token_count T / L)\<close> documents when \<open>token_count T \<ge> L\<close>, and none
  otherwise. The loop test is \<^verbatim>\<open>end_idx < len(lemmas)\<close>, so a window that ends exactly at
  the last token is not produced: a file of exactly two tokens, cut into chunks of two,
  yields no document, although \<open>2 div 2 = 1\<close>. (By \<open>load_file_count\<close> the loop adds
  \<open>(token_count T - 1) div L\<close> documents.)
\<close>

theorem load_directory_exact_multiple:
  "load_directory [\<lparr>entry_name = ''B_ep.txt'', entry_contents = ''et in''\<rparr>] 2
     = Some (Inr \<lparr>documents = [], authors = [], titles = []\<rparr>)
   \<and> token_count ''et in'' = 2 \<and> token_count ''et in'' div 2 = 1"
  by code_simp




section \<open>The scaler and the classifier\<close>

lemma check_array_Inr: "check_array X = Inr X' \<Longrightarrow> X' = X"
  by (auto simp: check_array_def split: list.splits if_splits)

lemma check_array_valid:
  assumes "check_array X = Inr X"
  shows "X \<noteq> []" and "0 < n_features X" and "\<forall>r \<in> set X. length r = n_features X"
  using assms
  by (auto simp: check_array_def n_features_def list_all_iff split: list.splits if_splits)

lemma check_array_empty: "check_array [] = Inl ValueError"
  by (simp add: check_array_def)

lemma check_array_error: "check_array X = Inl e \<Longrightarrow> e = ValueError"
  by (auto simp: check_array_def split: list.splits if_splits)

lemma length_fitted_scale: "length (fitted_scale X) = n_features X"
  by (simp add: fitted_scale_def)

lemma scaler_fit_valid:
  assumes "check_array X = Inr X"
  shows "scaler_fit sc X = (sc\<lparr>stats := Some (fitted_mean X, fitted_scale X)\<rparr>, Inr ())"
  using assms by (simp add: scaler_fit_def)

lemma scaler_fit_invalid:
  assumes "check_array X = Inl e"
  shows "scaler_fit sc X = (sc, Inl e)"
  using assms by (simp add: scaler_fit_def)

lemma scaler_transform_frame: "fst (scaler_transform sc X) = sc"
  by (simp add: scaler_transform_def split: option.splits prod.splits sum.splits)

lemma scaler_transform_valid:
  assumes "stats sc = Some (mu, sigma)" and "check_array X = Inr X"
    and "n_features X = length sigma"
  shows "scaler_transform sc X = (sc, Inr (map (standardize_row (with_mean sc) mu sigma) X))"
  using assms by (simp add: scaler_transform_def)

lemma scaler_fit_transform_valid:
  assumes "check_array X = Inr X"
  shows "scaler_fit_transform sc X =
           (sc\<lparr>stats := Some (fitted_mean X, fitted_scale X)\<rparr>,
            Inr (map (standardize_row (with_mean sc) (fitted_mean X) (fitted_scale X)) X))"
  using assms
  by (simp add: scaler_fit_transform_def scaler_fit_valid scaler_transform_valid
      length_fitted_scale)

lemma fit_valid:
  assumes "check_array X = Inr X"
  shows "fit self X y =
           (\<lparr>train_y = Some y,
             scaler = Some \<lparr>with_mean = False, stats = Some (fitted_mean X, fitted_scale X)\<rparr>,
             train_X = Some (map (standardize_row False (fitted_mean X) (fitted_scale X)) X)\<rparr>,
            Inr ())"
  using assms by (simp add: fit_def Let_def scaler_fit_transform_valid StandardScaler_def)

lemma fit_invalid:
  assumes "check_array X = Inl e"
  shows "snd (fit self X y) = Inl ValueError"
  using assms check_array_error[OF assms]
  by (simp add: fit_def Let_def scaler_fit_transform_def scaler_fit_invalid)

lemma fit_success_valid:
  assumes "fit self X y = (d, Inr ())"
  shows "check_array X = Inr X"
proof (cases "check_array X")
  case (Inl e)
  from fit_invalid[OF this, of self y] assms show ?thesis by simp
next
  case (Inr X')
  with check_array_Inr[OF this] show ?thesis by simp
qed

lemma predict_frame: "fst (predict self X m) = self"
proof (cases "scaler self")
  case None
  then show ?thesis by (simp add: predict_def)
next
  case (Some sc)
  have "fst (scaler_transform sc X) = sc" by (rule scaler_transform_frame)
  then obtain r where r: "scaler_transform sc X = (sc, r)" by (cases "scaler_transform sc X") auto
  have self: "self\<lparr>scaler := Some sc\<rparr> = self" using Some by simp
  show ?thesis using Some r
    by (simp add: predict_def self Let_def split: sum.splits option.splits)
qed

text \<open>
  C3, as amended. The claim: \<^verbatim>\<open>Delta.fit(X, y)\<close> fails whenever \<open>N = 0\<close> or
  \<open>len(y) \<noteq> N\<close>. What holds: \<^verbatim>\<open>fit\<close> fails on a matrix with no rows (the scaler's
  validation raises \<^verbatim>\<open>ValueError\<close>); on every valid matrix it succeeds whatever the
  length of \<open>y\<close> is, and stores \<open>y\<close> as it is. Nothing in \<^verbatim>\<open>fit\<close> compares \<open>y\<close> with
  \<open>X\<close>.
\<close>

theorem fit_ignores_label_length:
  "snd (fit self [] y) = Inl ValueError
   \<and> (check_array X = Inr X \<longrightarrow>
        snd (fit self X y) = Inr () \<and> train_y (fst (fit self X y)) = Some y)"
  by (simp add: fit_invalid check_array_empty fit_valid)

theorem fit_ignores_label_length_witness:
  "check_array [[0, 1], [4, 1]] = Inr [[0, 1], [4, 1]]
   \<and> snd (fit Delta [[0, 1], [4, 1]] [''A'']) = Inr ()
   \<and> train_y (fst (fit Delta [[0, 1], [4, 1]] [''A''])) = Some [''A'']"
proof -
  have h: "check_array [[0, 1], [4, 1]] = Inr [[0, 1], [4, 1]]"
    by (simp add: check_array_def)
  show ?thesis
    using h fit_ignores_label_length [of Delta "[''A'']" "[[0, 1], [4, 1]]"] by simp
qed

text \<open>The claim C3 as stated fails: one training row, two labels, and \<^verbatim>\<open>fit\<close>
  succeeds.\<close>

theorem fit_label_mismatch_counterexample:
  "length [''A'', ''B''] \<noteq> length [[1 :: real]]
   \<and> snd (fit Delta [[1]] [''A'', ''B'']) = Inr ()"
  by (simp add: fit_valid check_array_def)

text \<open>
  C8. \<^verbatim>\<open>predict\<close> returns the object exactly as it received it, for every object, query
  matrix and metric: the reference matrix, the labels and the scaler with its fitted
  statistics are unchanged. The scaler's \<^verbatim>\<open>transform\<close> returns the scaler unchanged as
  well, and whenever it succeeds its result is computed row by row from the stored
  statistics alone.
\<close>

theorem predict_leaves_state:
  "fst (predict self X m) = self
   \<and> fst (scaler_transform sc X) = sc
   \<and> (\<forall>Y. snd (scaler_transform sc X) = Inr Y \<longrightarrow>
        (\<exists>mu sigma. stats sc = Some (mu, sigma)
           \<and> Y = map (standardize_row (with_mean sc) mu sigma) X))"
proof -
  have "\<exists>mu sigma. stats sc = Some (mu, sigma)
           \<and> Y = map (standardize_row (with_mean sc) mu sigma) X"
    if "snd (scaler_transform sc X) = Inr Y" for Y
    using that check_array_Inr[of X]
    by (auto simp: scaler_transform_def split: option.splits sum.splits if_splits)
  then show ?thesis
    by (simp add: predict_frame scaler_transform_frame)
qed

theorem predict_leaves_state_witness:
  "snd (scaler_transform \<lparr>with_mean = False, stats = Some ([2, 1], [2, 1])\<rparr> [[3, 1]])
     = Inr [[3 / 2, 1]]
   \<and> (\<exists>mu sigma. stats \<lparr>with_mean = False, stats = Some ([2, 1], [2, 1])\<rparr> = Some (mu, sigma)
         \<and> [[3 / 2, 1]] = map (standardize_row False mu sigma) [[3, 1]])"
proof -
  have h: "snd (scaler_transform \<lparr>with_mean = False, stats = Some ([2, 1], [2, 1])\<rparr> [[3, 1]])
     = Inr [[3 / 2, 1]]"
    by (simp add: scaler_transform_def check_array_def n_features_def standardize_row_def)
  show ?thesis
    using h predict_leaves_state [of "Delta :: string delta" "[[3, 1]]" cityblock
        "\<lparr>with_mean = False, stats = Some ([2, 1], [2, 1])\<rparr>"]
    by simp
qed

text \<open>
  C9. The result of a \<^verbatim>\<open>predict\<close> call is a function of the object, the query matrix
  and that call's metric; a call made before it, on any query and with any metric,
  changes neither the result of the later call nor the object.
\<close>

theorem predict_no_cache:
  "snd (predict (fst (predict self X1 m1)) X2 m2) = snd (predict self X2 m2)
   \<and> fst (predict (fst (predict self X1 m1)) X2 m2) = self"
  by (simp add: predict_frame)

lemma argmin_from_correct:
  assumes "i = length pre" and "bi < i" and "b = pre ! bi"
    and "\<forall>k<i. b \<le> pre ! k" and "\<forall>k<bi. b < pre ! k"
  shows "argmin_from xs i bi b < length (pre @ xs)
       \<and> (\<forall>k<length (pre @ xs). (pre @ xs) ! argmin_from xs i bi b \<le> (pre @ xs) ! k)
       \<and> (\<forall>k<argmin_from xs i bi b. (pre @ xs) ! argmin_from xs i bi b < (pre @ xs) ! k)"
  using assms
proof (induction xs arbitrary: pre i bi b)
  case Nil
  then show ?case by simp
next
  case (Cons x xs)
  let ?pre = "pre @ [x]"
  show ?case
  proof (cases "x < b")
    case True
    have "argmin_from xs (i + 1) i x < length (?pre @ xs)
       \<and> (\<forall>k<length (?pre @ xs). (?pre @ xs) ! argmin_from xs (i + 1) i x \<le> (?pre @ xs) ! k)
       \<and> (\<forall>k<argmin_from xs (i + 1) i x. (?pre @ xs) ! argmin_from xs (i + 1) i x < (?pre @ xs) ! k)"
    proof (rule Cons.IH)
      show "i + 1 = length ?pre" using Cons.prems(1) by simp
      show "i < i + 1" by simp
      show "x = ?pre ! i" using Cons.prems(1) by simp
      show "\<forall>k<i + 1. x \<le> ?pre ! k"
      proof (intro allI impI)
        fix k assume "k < i + 1"
        show "x \<le> ?pre ! k"
        proof (cases "k < i")
          case True
          with Cons.prems(1,4) \<open>x < b\<close> show ?thesis by (simp add: nth_append) (meson less_le_trans less_imp_le)
        next
          case False
          with \<open>k < i + 1\<close> have "k = i" by simp
          with Cons.prems(1) show ?thesis by simp
        qed
      qed
      show "\<forall>k<i. x < ?pre ! k"
        using Cons.prems(1,4) True by (simp add: nth_append) (meson less_le_trans)
    qed
    with True show ?thesis by simp
  next
    case False
    have "argmin_from xs (i + 1) bi b < length (?pre @ xs)
       \<and> (\<forall>k<length (?pre @ xs). (?pre @ xs) ! argmin_from xs (i + 1) bi b \<le> (?pre @ xs) ! k)
       \<and> (\<forall>k<argmin_from xs (i + 1) bi b. (?pre @ xs) ! argmin_from xs (i + 1) bi b < (?pre @ xs) ! k)"
    proof (rule Cons.IH)
      show "i + 1 = length ?pre" using Cons.prems(1) by simp
      show "bi < i + 1" using Cons.prems(2) by simp
      show "b = ?pre ! bi" using Cons.prems(1,2,3) by (simp add: nth_append)
      show "\<forall>k<i + 1. b \<le> ?pre ! k"
      proof (intro allI impI)
        fix k assume "k < i + 1"
        show "b \<le> ?pre ! k"
        proof (cases "k < i")
          case True
          with Cons.prems(1,4) show ?thesis by (simp add: nth_append)
        next
          case False
          with \<open>k < i + 1\<close> have "k = i" by simp
          with Cons.prems(1) \<open>\<not> x < b\<close> show ?thesis by simp
        qed
      qed
      show "\<forall>k<bi. b < ?pre ! k"
        using Cons.prems(1,2,5) by (simp add: nth_append)
    qed
    with False show ?thesis by simp
  qed
qed

lemma argmin_correct:
  assumes "xs \<noteq> []"
  shows "\<exists>j. argmin xs = Inr j \<and> j < length xs
           \<and> (\<forall>k<length xs. xs ! j \<le> xs ! k) \<and> (\<forall>k<j. xs ! j < xs ! k)"
proof -
  from assms obtain x rest where xs: "xs = x # rest" by (cases xs) auto
  have "argmin_from rest 1 0 x < length ([x] @ rest)
       \<and> (\<forall>k<length ([x] @ rest). ([x] @ rest) ! argmin_from rest 1 0 x \<le> ([x] @ rest) ! k)
       \<and> (\<forall>k<argmin_from rest 1 0 x. ([x] @ rest) ! argmin_from rest 1 0 x < ([x] @ rest) ! k)"
    by (rule argmin_from_correct) simp_all
  then show ?thesis by (simp add: xs argmin_def)
qed

lemma argmin_rows_correct:
  assumes "\<forall>r \<in> set D. r \<noteq> []"
  shows "\<exists>js. argmin_rows D = Inr js \<and> length js = length D
           \<and> (\<forall>i<length D. argmin (D ! i) = Inr (js ! i))"
  using assms
proof (induction D)
  case Nil
  then show ?case by simp
next
  case (Cons r D)
  from Cons.prems have "r \<noteq> []" by simp
  from argmin_correct[OF this] obtain j where j: "argmin r = Inr j" by blast
  from Cons obtain js where js: "argmin_rows D = Inr js" "length js = length D"
    "\<forall>i<length D. argmin (D ! i) = Inr (js ! i)" by auto
  have "\<forall>i<length (r # D). argmin ((r # D) ! i) = Inr ((j # js) ! i)"
    using j js(3) by (auto simp: nth_Cons split: nat.splits)
  with j js show ?case by simp
qed

lemma take_labels_in_range:
  assumes "\<forall>j \<in> set idx. j < length ys"
  shows "take_labels ys idx = Inr (map (\<lambda>j. ys ! j) idx)"
  using assms by (simp add: take_labels_def list_all_iff)

lemma fit_example:
  "fit Delta [[0, 1], [4, 1], [4, 1], [0, 1]] y =
     (\<lparr>train_y = Some y,
       scaler = Some \<lparr>with_mean = False, stats = Some ([2, 1], [2, 1])\<rparr>,
       train_X = Some [[0, 1], [2, 1], [2, 1], [0, 1]]\<rparr>, Inr ())"
  by (simp add: fit_def Delta_def scaler_fit_transform_def scaler_transform_def
      standardize_row_def scaler_fit_def check_array_def StandardScaler_def n_features_def
      fitted_mean_def fitted_scale_def column_def mean_def variance_def
      handle_zeros_in_scale_def upt_rec power2_eq_square)

lemma length_standardize_row:
  "length row = length sigma \<Longrightarrow> length (standardize_row False mu sigma row) = length sigma"
  by (simp add: standardize_row_def)

lemma predict_fitted:
  assumes valid: "check_array Xtrain = Inr Xtrain"
    and query: "check_array Xq = Inr Xq"
    and width: "n_features Xq = n_features Xtrain"
  shows "\<exists>js. argmin_rows (map (\<lambda>a. map (\<lambda>b. m a b)
                 (map (standardize_row False (fitted_mean Xtrain) (fitted_scale Xtrain)) Xtrain))
                 (map (standardize_row False (fitted_mean Xtrain) (fitted_scale Xtrain)) Xq)) = Inr js
          \<and> snd (predict (fst (fit self Xtrain y)) Xq m) = take_labels y js"
proof -
  let ?mu = "fitted_mean Xtrain" and ?sigma = "fitted_scale Xtrain"
  let ?std = "standardize_row False ?mu ?sigma"
  let ?ref = "map ?std Xtrain" and ?X' = "map ?std Xq"
  let ?sc = "\<lparr>with_mean = False, stats = Some (?mu, ?sigma)\<rparr>"
  let ?d = "\<lparr>train_y = Some y, scaler = Some ?sc, train_X = Some ?ref\<rparr>"
  let ?dists = "map (\<lambda>a. map (\<lambda>b. m a b) ?ref) ?X'"
  have d: "fst (fit self Xtrain y) = ?d" by (simp add: fit_valid[OF valid])
  have tr: "scaler_transform ?sc Xq = (?sc, Inr ?X')"
    using scaler_transform_valid[of ?sc ?mu ?sigma Xq] query width
    by (simp add: length_fitted_scale)
  have len_ref: "\<forall>b \<in> set ?ref. length b = n_features Xtrain"
    using check_array_valid(3)[OF valid]
    by (auto simp: length_standardize_row length_fitted_scale)
  have len_q: "\<forall>a \<in> set ?X'. length a = n_features Xtrain"
    using check_array_valid(3)[OF query] width
    by (auto simp: length_standardize_row length_fitted_scale)
  have cd: "cdist ?X' ?ref m = Inr ?dists"
    unfolding cdist_def using len_ref len_q by (simp add: list_all_iff)
  have "?ref \<noteq> []" using check_array_valid(1)[OF valid] by simp
  then have "\<forall>r \<in> set ?dists. r \<noteq> []" by auto
  from argmin_rows_correct[OF this] obtain js where js: "argmin_rows ?dists = Inr js" by blast
  have "snd (predict ?d Xq m) = take_labels y js"
    using tr cd js by (simp add: predict_def Let_def)
  with js d show ?thesis by auto
qed

text \<open>
  C1, as amended. For a classifier fitted on \<open>N\<close> training rows with at least \<open>N\<close> labels
  and a valid query matrix (at least one row, the fitted width), \<^verbatim>\<open>predict\<close> returns one
  label per query row; the \<open>i\<close>-th label is \<open>y[j]\<close> where \<open>j\<close> minimises the metric
  between the standardized query row \<open>i\<close> and reference row \<open>j\<close>, and every reference row
  before \<open>j\<close> is strictly farther: among equidistant rows the lowest index wins.
\<close>

theorem predict_nearest_first:
  assumes fitted: "fit self Xtrain y = (d, Inr ())"
    and labels: "length Xtrain \<le> length y"
    and query: "check_array Xq = Inr Xq"
    and width: "n_features Xq = n_features Xtrain"
  shows "\<exists>sc mu sigma ref labels.
      scaler d = Some sc \<and> stats sc = Some (mu, sigma) \<and> train_X d = Some ref
      \<and> ref = map (standardize_row (with_mean sc) mu sigma) Xtrain
      \<and> snd (predict d Xq m) = Inr labels \<and> length labels = length Xq
      \<and> (\<forall>i<length Xq. \<exists>j<length ref. labels ! i = y ! j
            \<and> (\<forall>k<length ref. m (standardize_row (with_mean sc) mu sigma (Xq ! i)) (ref ! j)
                              \<le> m (standardize_row (with_mean sc) mu sigma (Xq ! i)) (ref ! k))
            \<and> (\<forall>k<j. m (standardize_row (with_mean sc) mu sigma (Xq ! i)) (ref ! j)
                      < m (standardize_row (with_mean sc) mu sigma (Xq ! i)) (ref ! k)))"
proof -
  let ?mu = "fitted_mean Xtrain" and ?sigma = "fitted_scale Xtrain"
  let ?std = "standardize_row False ?mu ?sigma"
  let ?ref = "map ?std Xtrain" and ?X' = "map ?std Xq"
  let ?sc = "\<lparr>with_mean = False, stats = Some (?mu, ?sigma)\<rparr>"
  let ?dists = "map (\<lambda>a. map (\<lambda>b. m a b) ?ref) ?X'"
  have valid: "check_array Xtrain = Inr Xtrain" using fitted by (rule fit_success_valid)
  have d: "d = \<lparr>train_y = Some y, scaler = Some ?sc, train_X = Some ?ref\<rparr>"
    using fitted fit_valid[OF valid, of self y] by simp
  have dfit: "fst (fit self Xtrain y) = d" using fitted by simp
  from predict_fitted[OF valid query width, of m self y] dfit
  obtain js where rows: "argmin_rows ?dists = Inr js"
    and pred: "snd (predict d Xq m) = take_labels y js" by auto
  have "?ref \<noteq> []" using check_array_valid(1)[OF valid] by simp
  then have ne: "\<forall>r \<in> set ?dists. r \<noteq> []" by auto
  from argmin_rows_correct[OF ne] rows
  have len_js: "length js = length Xq"
    and at: "\<forall>i<length Xq. argmin (?dists ! i) = Inr (js ! i)" by auto
  have best: "js ! i < length ?ref
      \<and> (\<forall>k<length ?ref. m (?std (Xq ! i)) (?ref ! (js ! i)) \<le> m (?std (Xq ! i)) (?ref ! k))
      \<and> (\<forall>k<js ! i. m (?std (Xq ! i)) (?ref ! (js ! i)) < m (?std (Xq ! i)) (?ref ! k))"
    if i: "i < length Xq" for i
  proof -
    let ?row = "map (\<lambda>b. m (?std (Xq ! i)) b) ?ref"
    have row: "?dists ! i = ?row" using i by simp
    have "?row \<noteq> []" using \<open>?ref \<noteq> []\<close> by simp
    from argmin_correct[OF this] obtain j where j: "argmin ?row = Inr j" "j < length ?row"
      "\<forall>k<length ?row. ?row ! j \<le> ?row ! k" "\<forall>k<j. ?row ! j < ?row ! k" by blast
    from at i row j(1) have eq: "js ! i = j" by simp
    have lenrow: "length ?row = length ?ref" by simp
    have jlt: "j < length ?ref" using j(2) by simp
    have nth_row: "?row ! k = m (?std (Xq ! i)) (?ref ! k)" if "k < length ?ref" for k
      using that by (simp del: map_map)
    have a: "\<forall>k<length ?ref. m (?std (Xq ! i)) (?ref ! j) \<le> m (?std (Xq ! i)) (?ref ! k)"
    proof (intro allI impI)
      fix k assume k: "k < length ?ref"
      from j(3) k have "?row ! j \<le> ?row ! k" by simp
      then show "m (?std (Xq ! i)) (?ref ! j) \<le> m (?std (Xq ! i)) (?ref ! k)"
        using nth_row[OF k] nth_row[OF jlt] by simp
    qed
    have b: "\<forall>k<j. m (?std (Xq ! i)) (?ref ! j) < m (?std (Xq ! i)) (?ref ! k)"
    proof (intro allI impI)
      fix k assume k: "k < j"
      then have k': "k < length ?ref" using jlt by simp
      from j(4) k have "?row ! j < ?row ! k" by simp
      then show "m (?std (Xq ! i)) (?ref ! j) < m (?std (Xq ! i)) (?ref ! k)"
        using nth_row[OF k'] nth_row[OF jlt] by simp
    qed
    from a b jlt eq show ?thesis by simp
  qed
  have in_range: "\<forall>j \<in> set js. j < length y"
  proof
    fix j assume "j \<in> set js"
    then obtain i where i: "i < length js" "js ! i = j" by (auto simp: in_set_conv_nth)
    with best[of i] len_js have "j < length ?ref" by simp
    with labels show "j < length y" by simp
  qed
  have res: "snd (predict d Xq m) = Inr (map (\<lambda>j. y ! j) js)"
    using pred take_labels_in_range[OF in_range] by simp
  have final: "\<forall>i<length Xq. \<exists>j<length ?ref. map (\<lambda>j. y ! j) js ! i = y ! j
            \<and> (\<forall>k<length ?ref. m (?std (Xq ! i)) (?ref ! j) \<le> m (?std (Xq ! i)) (?ref ! k))
            \<and> (\<forall>k<j. m (?std (Xq ! i)) (?ref ! j) < m (?std (Xq ! i)) (?ref ! k))"
  proof (intro allI impI)
    fix i assume i: "i < length Xq"
    have lbl: "map (\<lambda>j. y ! j) js ! i = y ! (js ! i)" using i len_js by simp
    from best[OF i] lbl
    show "\<exists>j<length ?ref. map (\<lambda>j. y ! j) js ! i = y ! j
            \<and> (\<forall>k<length ?ref. m (?std (Xq ! i)) (?ref ! j) \<le> m (?std (Xq ! i)) (?ref ! k))
            \<and> (\<forall>k<j. m (?std (Xq ! i)) (?ref ! j) < m (?std (Xq ! i)) (?ref ! k))"
      by blast
  qed
  show ?thesis
    apply (rule exI[of _ ?sc], rule exI[of _ ?mu], rule exI[of _ ?sigma], rule exI[of _ ?ref],
        rule exI[of _ "map (\<lambda>j. y ! j) js"])
    using d res len_js final by simp
qed

theorem predict_nearest_first_witness:
  "fit Delta [[0, 1], [4, 1], [4, 1], [0, 1]] [''A'', ''B'', ''C'', ''D'']
     = (\<lparr>train_y = Some [''A'', ''B'', ''C'', ''D''],
         scaler = Some \<lparr>with_mean = False, stats = Some ([2, 1], [2, 1])\<rparr>,
         train_X = Some [[0, 1], [2, 1], [2, 1], [0, 1]]\<rparr>, Inr ())
   \<and> length [[0, 1], [4, 1], [4, 1], [0, 1 :: real]] \<le> length [''A'', ''B'', ''C'', ''D'']
   \<and> check_array [[3, 1], [1, 1]] = Inr [[3, 1], [1, 1]]
   \<and> n_features [[3, 1], [1, 1]] = n_features [[0, 1], [4, 1], [4, 1], [0, 1]]
   \<and> snd (predict \<lparr>train_y = Some [''A'', ''B'', ''C'', ''D''],
         scaler = Some \<lparr>with_mean = False, stats = Some ([2, 1], [2, 1])\<rparr>,
         train_X = Some [[0, 1], [2, 1], [2, 1], [0, 1]]\<rparr> [[3, 1], [1, 1]] cityblock)
       = Inr [''B'', ''A'']
   \<and> (\<exists>ref labels.
        ref = map (standardize_row False [2, 1] [2, 1]) [[0, 1], [4, 1], [4, 1], [0, 1]]
        \<and> snd (predict \<lparr>train_y = Some [''A'', ''B'', ''C'', ''D''],
         scaler = Some \<lparr>with_mean = False, stats = Some ([2, 1], [2, 1])\<rparr>,
         train_X = Some [[0, 1], [2, 1], [2, 1], [0, 1]]\<rparr> [[3, 1], [1, 1]] cityblock) = Inr labels
        \<and> length labels = length [[3, 1], [1, 1 :: real]]
        \<and> (\<forall>i<length [[3, 1], [1, 1 :: real]]. \<exists>j<length ref. labels ! i = [''A'', ''B'', ''C'', ''D''] ! j
            \<and> (\<forall>k<length ref. cityblock (standardize_row False [2, 1] [2, 1] ([[3, 1], [1, 1]] ! i)) (ref ! j)
                    \<le> cityblock (standardize_row False [2, 1] [2, 1] ([[3, 1], [1, 1]] ! i)) (ref ! k))
            \<and> (\<forall>k<j. cityblock (standardize_row False [2, 1] [2, 1] ([[3, 1], [1, 1]] ! i)) (ref ! j)
                    < cityblock (standardize_row False [2, 1] [2, 1] ([[3, 1], [1, 1]] ! i)) (ref ! k))))"
proof -
  let ?d = "\<lparr>train_y = Some [''A'', ''B'', ''C'', ''D''],
         scaler = Some \<lparr>with_mean = False, stats = Some ([2, 1], [2, 1])\<rparr>,
         train_X = Some [[0, 1], [2, 1], [2, 1], [0, 1]]\<rparr>"
  have h1: "fit Delta [[0, 1], [4, 1], [4, 1], [0, 1]] [''A'', ''B'', ''C'', ''D''] = (?d, Inr ())"
    by (rule fit_example)
  have h2: "length [[0, 1], [4, 1], [4, 1], [0, 1 :: real]] \<le> length [''A'', ''B'', ''C'', ''D'']"
    by simp
  have h3: "check_array [[3, 1], [1, 1]] = Inr [[3, 1], [1, 1]]"
    by (simp add: check_array_def)
  have h4: "n_features [[3, 1], [1, 1]] = n_features [[0, 1], [4, 1], [4, 1], [0, 1]]"
    by (simp add: n_features_def)
  have run: "snd (predict ?d [[3, 1], [1, 1]] cityblock) = Inr [''B'', ''A'']"
    by (simp add: predict_def scaler_transform_def standardize_row_def check_array_def
        n_features_def cdist_def cityblock_def argmin_def take_labels_def)
  from predict_nearest_first [OF h1 h2 h3 h4, of cityblock]
  obtain sc mu sigma ref labels where
    sc: "scaler ?d = Some sc" and st: "stats sc = Some (mu, sigma)"
    and ref: "ref = map (standardize_row (with_mean sc) mu sigma) [[0, 1], [4, 1], [4, 1], [0, 1]]"
    and lab: "snd (predict ?d [[3, 1], [1, 1]] cityblock) = Inr labels"
      "length labels = length [[3, 1], [1, 1 :: real]]"
    and best: "\<forall>i<length [[3, 1], [1, 1 :: real]]. \<exists>j<length ref. labels ! i = [''A'', ''B'', ''C'', ''D''] ! j
            \<and> (\<forall>k<length ref. cityblock (standardize_row (with_mean sc) mu sigma ([[3, 1], [1, 1]] ! i)) (ref ! j)
                    \<le> cityblock (standardize_row (with_mean sc) mu sigma ([[3, 1], [1, 1]] ! i)) (ref ! k))
            \<and> (\<forall>k<j. cityblock (standardize_row (with_mean sc) mu sigma ([[3, 1], [1, 1]] ! i)) (ref ! j)
                    < cityblock (standardize_row (with_mean sc) mu sigma ([[3, 1], [1, 1]] ! i)) (ref ! k))"
    by blast
  from sc st have eqs: "with_mean sc = False" "mu = [2, 1]" "sigma = [2, 1]" by auto
  from ref lab best have "\<exists>ref labels.
        ref = map (standardize_row False [2, 1] [2, 1]) [[0, 1], [4, 1], [4, 1], [0, 1]]
        \<and> snd (predict ?d [[3, 1], [1, 1]] cityblock) = Inr labels
        \<and> length labels = length [[3, 1], [1, 1 :: real]]
        \<and> (\<forall>i<length [[3, 1], [1, 1 :: real]]. \<exists>j<length ref. labels ! i = [''A'', ''B'', ''C'', ''D''] ! j
            \<and> (\<forall>k<length ref. cityblock (standardize_row False [2, 1] [2, 1] ([[3, 1], [1, 1]] ! i)) (ref ! j)
                    \<le> cityblock (standardize_row False [2, 1] [2, 1] ([[3, 1], [1, 1]] ! i)) (ref ! k))
            \<and> (\<forall>k<j. cityblock (standardize_row False [2, 1] [2, 1] ([[3, 1], [1, 1]] ! i)) (ref ! j)
                    < cityblock (standardize_row False [2, 1] [2, 1] ([[3, 1], [1, 1]] ! i)) (ref ! k)))"
    unfolding eqs by blast
  with h1 h2 h3 h4 run show ?thesis by blast
qed

text \<open>The claim C1 as stated fails on two inputs it covers: a query matrix with no
  rows is rejected by the scaler's validation instead of giving an empty label sequence,
  and after a fit with fewer labels than training rows the label lookup at the nearest
  row's index raises \<^verbatim>\<open>IndexError\<close>.\<close>

theorem predict_rejected_inputs_counterexample:
  "snd (fit Delta [[0, 1], [4, 1]] [''A'', ''B'']) = Inr ()
   \<and> snd (predict (fst (fit Delta [[0, 1], [4, 1]] [''A'', ''B''])) [] cityblock)
       = Inl ValueError
   \<and> snd (fit Delta [[0, 1], [4, 1]] [''A'']) = Inr ()
   \<and> snd (predict (fst (fit Delta [[0, 1], [4, 1]] [''A''])) [[4, 1]] cityblock)
       = Inl IndexError"
  by (simp add: fit_def Delta_def scaler_fit_transform_def scaler_fit_def StandardScaler_def
      fitted_mean_def fitted_scale_def column_def mean_def variance_def
      handle_zeros_in_scale_def upt_rec power2_eq_square predict_def scaler_transform_def
      standardize_row_def check_array_def n_features_def cdist_def cityblock_def argmin_def
      take_labels_def)

text \<open>The specification's end-to-end scenario: training rows \<open>[1, 0]\<close> and \<open>[0, 1]\<close>
  labelled A and B, the query \<open>[0.9, 0.1]\<close> under the city-block metric is attributed
  to A.\<close>

lemma end_to_end_scenario:
  "snd (predict (fst (fit Delta [[1, 0], [0, 1]] [''A'', ''B''])) [[9 / 10, 1 / 10]] cityblock)
     = Inr [''A'']"
  by (simp add: fit_def Delta_def scaler_fit_transform_def scaler_fit_def StandardScaler_def
      fitted_mean_def fitted_scale_def column_def mean_def variance_def
      handle_zeros_in_scale_def upt_rec power2_eq_square predict_def scaler_transform_def
      standardize_row_def check_array_def n_features_def cdist_def cityblock_def argmin_def
      take_labels_def real_sqrt_divide)

lemma population_std_eq: "population_std xs = sqrt (variance xs)"
  by (simp add: population_std_def variance_def mean_def)

lemma nth_fitted_scale:
  "j < n_features X \<Longrightarrow>
     fitted_scale X ! j = handle_zeros_in_scale (population_std (column X j))"
  by (simp add: fitted_scale_def population_std_eq)

lemma nth_standardize_row_False:
  assumes "j < length row" and "j < length sigma"
  shows "standardize_row False mu sigma row ! j = row ! j / sigma ! j"
  using assms by (simp add: standardize_row_def)

lemma variance_nonneg: "0 \<le> variance xs"
proof -
  have "0 \<le> (\<Sum>x\<leftarrow>xs. (x - mean xs)\<^sup>2)" by (rule sum_list_nonneg) auto
  then show ?thesis by (simp add: variance_def)
qed

lemma handle_zeros_nonzero: "handle_zeros_in_scale s \<noteq> 0"
  by (simp add: handle_zeros_in_scale_def)

text \<open>
  C4. For every valid (non-empty) training matrix \<open>X\<close>, \<^verbatim>\<open>Delta.fit\<close> succeeds with a
  scaler whose mean-centering is off, and every entry of the stored reference matrix is
  \<open>X[i][j]\<close> divided by the population standard deviation of column \<open>j\<close>, or by one when
  that standard deviation is zero. No mean is subtracted.
\<close>

theorem fit_scales_by_population_std:
  assumes "check_array X = Inr X"
  shows "\<exists>d sc ref.
      fit self X y = (d, Inr ()) \<and> scaler d = Some sc \<and> with_mean sc = False
      \<and> train_X d = Some ref \<and> length ref = length X
      \<and> (\<forall>i<length X. length (ref ! i) = n_features X
            \<and> (\<forall>j<n_features X.
                  ref ! i ! j =
                    X ! i ! j / (if population_std (column X j) = 0 then 1
                                 else population_std (column X j))))"
proof -
  let ?mu = "fitted_mean X" and ?sigma = "fitted_scale X"
  let ?ref = "map (standardize_row False ?mu ?sigma) X"
  have rows: "\<forall>r \<in> set X. length r = n_features X"
    using check_array_valid(3)[OF assms] .
  have entry: "length (?ref ! i) = n_features X
            \<and> (\<forall>j<n_features X.
                  ?ref ! i ! j =
                    X ! i ! j / (if population_std (column X j) = 0 then 1
                                 else population_std (column X j)))"
    if i: "i < length X" for i
  proof -
    have len: "length (X ! i) = n_features X" using rows i by simp
    have "?ref ! i = standardize_row False ?mu ?sigma (X ! i)" using i by simp
    moreover have "length (standardize_row False ?mu ?sigma (X ! i)) = n_features X"
      using len by (simp add: length_standardize_row length_fitted_scale)
    moreover have "standardize_row False ?mu ?sigma (X ! i) ! j =
        X ! i ! j / (if population_std (column X j) = 0 then 1 else population_std (column X j))"
      if "j < n_features X" for j
      using that len nth_standardize_row_False[of j "X ! i" ?sigma ?mu]
      by (simp add: length_fitted_scale nth_fitted_scale handle_zeros_in_scale_def)
    ultimately show ?thesis by simp
  qed
  show ?thesis
    using fit_valid[OF assms, of self y] entry by simp
qed

theorem fit_scales_by_population_std_witness:
  "check_array [[0, 1], [4, 1]] = Inr [[0, 1], [4, 1]]
   \<and> (\<exists>d sc ref.
      fit (Delta :: string delta) [[0, 1], [4, 1]] [''A'', ''B''] = (d, Inr ())
      \<and> scaler d = Some sc \<and> with_mean sc = False
      \<and> train_X d = Some ref \<and> length ref = length [[0, 1], [4, 1 :: real]]
      \<and> (\<forall>i<length [[0, 1], [4, 1 :: real]]. length (ref ! i) = n_features [[0, 1], [4, 1]]
            \<and> (\<forall>j<n_features [[0, 1], [4, 1]].
                  ref ! i ! j =
                    [[0, 1], [4, 1]] ! i ! j /
                      (if population_std (column [[0, 1], [4, 1]] j) = 0 then 1
                       else population_std (column [[0, 1], [4, 1]] j)))))"
proof -
  have h: "check_array [[0, 1], [4, 1]] = Inr [[0, 1], [4, 1]]"
    by (simp add: check_array_def)
  show ?thesis
    using h fit_scales_by_population_std [OF h, of "Delta :: string delta" "[''A'', ''B'']"]
    by simp
qed

lemma column_standardized_constant:
  assumes valid: "check_array X = Inr X" and j: "j < n_features X"
    and var: "variance (column X j) = 0"
  shows "column (map (standardize_row False (fitted_mean X) (fitted_scale X)) X) j = column X j"
proof -
  have sj: "fitted_scale X ! j = 1"
    using j var by (simp add: fitted_scale_def handle_zeros_in_scale_def)
  have "standardize_row False (fitted_mean X) (fitted_scale X) r ! j = r ! j"
    if "r \<in> set X" for r
  proof -
    have "length r = n_features X" using check_array_valid(3)[OF valid] that by simp
    with j sj nth_standardize_row_False[of j r "fitted_scale X" "fitted_mean X"]
    show ?thesis by (simp add: length_fitted_scale)
  qed
  then show ?thesis by (simp add: column_def)
qed

text \<open>
  The zero fallbacks in exact arithmetic: the all-zero vector is normalized to itself, the
  divisor of the normalizer and every fitted scale are non-zero, and the scale-only
  standardization inside \<^verbatim>\<open>Delta.fit\<close> leaves every zero-variance column as it was.
  Whether the library's floating-point arithmetic yields NaN or Inf is outside what exact
  real numbers express.
\<close>

lemma normalize_row_zero: "normalize_row (replicate n 0) = replicate n 0"
  by (simp add: normalize_row_def)

lemma row_norm_nonzero: "row_norm v \<noteq> 0"
  by (simp add: row_norm_def handle_zeros_nonzero)

lemma fitted_scale_nonzero: "s \<in> set (fitted_scale X) \<Longrightarrow> s \<noteq> 0"
  by (auto simp: fitted_scale_def handle_zeros_nonzero)

lemma fit_keeps_constant_columns:
  assumes "check_array X = Inr X"
  shows "\<exists>d ref. fit self X y = (d, Inr ()) \<and> train_X d = Some ref
           \<and> (\<forall>j<n_features X. variance (column X j) = 0 \<longrightarrow> column ref j = column X j)"
  using fit_valid[OF assms, of self y] column_standardized_constant[OF assms] by simp

lemma sum_list_nonneg_pos:
  fixes v :: "real list"
  assumes "\<forall>x \<in> set v. 0 \<le> x" and "\<exists>x \<in> set v. x \<noteq> 0"
  shows "0 < sum_list v"
  using assms
proof (induction v)
  case Nil
  then show ?case by simp
next
  case (Cons a v)
  have nn: "0 \<le> sum_list v" using Cons.prems(1) by (simp add: sum_list_nonneg)
  show ?case
  proof (cases "a = 0")
    case True
    with Cons show ?thesis by auto
  next
    case False
    with Cons.prems(1) have "0 < a" by simp
    with nn show ?thesis by simp
  qed
qed

lemma sum_list_abs_nonneg:
  fixes v :: "real list"
  shows "(\<forall>x \<in> set v. 0 \<le> x) \<Longrightarrow> sum_list (map abs v) = sum_list v"
  by (induction v) auto

lemma sum_list_divide_const:
  fixes v :: "real list"
  shows "sum_list (map (\<lambda>x. x / c) v) = sum_list v / c"
  by (induction v) (auto simp: add_divide_distrib)

text \<open>
  C6. For a vector of non-negative entries that is not all zero, the L1 normalizer
  divides each entry by the sum of all entries, and the result sums to one. A vector whose
  absolute values already sum to one is returned unchanged.
\<close>

theorem normalize_row_sums_to_one:
  "((\<forall>x \<in> set v. 0 \<le> x) \<and> (\<exists>x \<in> set v. x \<noteq> 0) \<longrightarrow>
      normalize_row v = map (\<lambda>x. x / sum_list v) v \<and> sum_list (normalize_row v) = 1)
   \<and> (sum_list (map abs w) = 1 \<longrightarrow> normalize_row w = w)"
proof -
  have a: "normalize_row v = map (\<lambda>x. x / sum_list v) v \<and> sum_list (normalize_row v) = 1"
    if nn: "\<forall>x \<in> set v. 0 \<le> x" and nz: "\<exists>x \<in> set v. x \<noteq> 0"
  proof -
    have pos: "0 < sum_list v" using nn nz by (rule sum_list_nonneg_pos)
    have norm: "row_norm v = sum_list v"
      using pos by (simp add: row_norm_def sum_list_abs_nonneg[OF nn] handle_zeros_in_scale_def)
    have "sum_list (map (\<lambda>x. x / sum_list v) v) = 1"
      using pos by (simp add: sum_list_divide_const)
    with norm show ?thesis by (simp add: normalize_row_def)
  qed
  have b: "normalize_row w = w" if "sum_list (map abs w) = 1"
    using that by (simp add: normalize_row_def row_norm_def handle_zeros_in_scale_def)
  from a b show ?thesis by blast
qed

theorem normalize_row_sums_to_one_witness:
  "list_all (\<lambda>x. 0 \<le> x) [3, 0, 1 :: real] \<and> (\<exists>x \<in> set [3, 0, 1 :: real]. x \<noteq> 0)
   \<and> normalize_row [3, 0, 1] = [3 / 4, 0, 1 / 4]
   \<and> sum_list (normalize_row [3, 0, 1]) = 1
   \<and> sum_list (map abs [3 / 4, 0, - 1 / 4 :: real]) = 1
   \<and> normalize_row [3 / 4, 0, - 1 / 4] = [3 / 4, 0, - 1 / 4]"
proof -
  have h1: "(\<forall>x \<in> set [3, 0, 1 :: real]. 0 \<le> x) \<and> (\<exists>x \<in> set [3, 0, 1 :: real]. x \<noteq> 0)"
    by simp
  have h2: "sum_list (map abs [3 / 4, 0, - 1 / 4 :: real]) = 1" by simp
  show ?thesis
    using h1 h2 normalize_row_sums_to_one [of "[3, 0, 1]" "[3 / 4, 0, - 1 / 4]"]
    by simp
qed

section \<open>The vectorizer: counts against a fixed vocabulary\<close>

lemma build_vocab_distinct:
  assumes "distinct ts" and "\<forall>t \<in> set ts. vocab t = None"
  shows "\<exists>vocab'. build_vocab ts i vocab = Inr vocab'
           \<and> (\<forall>j<length ts. vocab' (ts ! j) = Some (i + j))
           \<and> (\<forall>t. t \<notin> set ts \<longrightarrow> vocab' t = vocab t)"
  using assms
proof (induction ts arbitrary: i vocab)
  case Nil
  then show ?case by simp
next
  case (Cons t ts)
  let ?v = "vocab(t \<mapsto> i)"
  have "distinct ts" and "\<forall>u \<in> set ts. ?v u = None"
    using Cons.prems by auto
  from Cons.IH[OF this, of "i + 1"] obtain vocab' where
    b: "build_vocab ts (i + 1) ?v = Inr vocab'"
    and idx: "\<forall>j<length ts. vocab' (ts ! j) = Some (i + 1 + j)"
    and rest: "\<forall>u. u \<notin> set ts \<longrightarrow> vocab' u = ?v u" by blast
  have none: "vocab t = None" using Cons.prems(2) by simp
  have tnot: "t \<notin> set ts" using Cons.prems(1) by simp
  have "\<forall>j<length (t # ts). vocab' ((t # ts) ! j) = Some (i + j)"
  proof (intro allI impI)
    fix j assume "j < length (t # ts)"
    then show "vocab' ((t # ts) ! j) = Some (i + j)"
      using idx rest tnot by (cases j) auto
  qed
  moreover have "\<forall>u. u \<notin> set (t # ts) \<longrightarrow> vocab' u = vocab u"
    using rest by auto
  ultimately show ?case using b none by simp
qed

lemma validate_vocabulary_ok:
  assumes "vocabulary \<noteq> []" and "distinct vocabulary"
  shows "\<exists>vocab. validate_vocabulary vocabulary = Inr vocab
           \<and> (\<forall>j<length vocabulary. vocab (vocabulary ! j) = Some j)
           \<and> (\<forall>t. t \<notin> set vocabulary \<longrightarrow> vocab t = None)"
  using build_vocab_distinct[OF assms(2), of Map.empty 0] assms(1)
  by (auto simp: validate_vocabulary_def)

lemma count_tokens_length:
  assumes "\<forall>t j. vocab t = Some j \<longrightarrow> j < length row"
  shows "length (count_tokens vocab ts row) = length row"
  using assms by (induction ts arbitrary: row) (auto split: option.splits)

lemma count_tokens_entry:
  assumes idx: "\<forall>j<length vocabulary. vocab (vocabulary ! j) = Some j"
    and oov: "\<forall>t. t \<notin> set vocabulary \<longrightarrow> vocab t = None"
    and dist: "distinct vocabulary"
    and len: "length row = length vocabulary"
    and j: "j < length vocabulary"
  shows "count_tokens vocab ts row ! j = row ! j + count_list ts (vocabulary ! j)"
  using len
proof (induction ts arbitrary: row)
  case Nil
  then show ?case by simp
next
  case (Cons t ts)
  show ?case
  proof (cases "t \<in> set vocabulary")
    case False
    then have "vocab t = None" using oov by simp
    moreover have "vocabulary ! j \<noteq> t" using False j by auto
    ultimately show ?thesis using Cons by simp
  next
    case True
    then obtain k where k: "k < length vocabulary" "vocabulary ! k = t"
      by (auto simp: in_set_conv_nth)
    then have vt: "vocab t = Some k" using idx by auto
    let ?row = "row[k := row ! k + 1]"
    have len': "length ?row = length vocabulary" using Cons.prems by simp
    have IH: "count_tokens vocab ts ?row ! j = ?row ! j + count_list ts (vocabulary ! j)"
      using Cons.IH[OF len'] .
    have same: "(vocabulary ! j = t) = (j = k)"
      using k j dist by (auto simp: nth_eq_iff_index_eq)
    show ?thesis
    proof (cases "j = k")
      case True
      then show ?thesis using IH vt same Cons.prems k by simp
    next
      case False
      then show ?thesis using IH vt same Cons.prems k by simp
    qed
  qed
qed

lemma count_tokens_oov:
  assumes "\<forall>t. t \<notin> set vocabulary \<longrightarrow> vocab t = None"
  shows "count_tokens vocab (filter (\<lambda>t. t \<in> set vocabulary) ts) row = count_tokens vocab ts row"
  using assms by (induction ts arbitrary: row) (auto split: option.splits)

lemma analyze_empty: "analyze [] = []"
  by (simp add: analyze_def tokenize_def lower_def)

text \<open>
  C7. For a vocabulary (non-empty, each token once) and any list of documents, the
  vectorizer returns one row per document and one column per vocabulary token, in the
  vocabulary's order; entry \<open>[i, j]\<close> is the number of occurrences of vocabulary token \<open>j\<close>
  in the token stream of document \<open>i\<close>; an empty document gives the all-zero row; and any
  document whose token stream differs only in tokens outside the vocabulary gives the same
  row.
\<close>

theorem vectorizer_counts_vocabulary_tokens:
  assumes "vocabulary \<noteq> []" and "distinct vocabulary"
  shows "\<exists>M. vectorizer_transform vocabulary docs = Inr M \<and> length M = length docs
      \<and> (\<forall>i<length docs.
            length (M ! i) = length vocabulary
            \<and> (\<forall>j<length vocabulary. M ! i ! j = count_list (analyze (docs ! i)) (vocabulary ! j))
            \<and> (docs ! i = [] \<longrightarrow> M ! i = replicate (length vocabulary) 0)
            \<and> (\<forall>doc'. filter (\<lambda>t. t \<in> set vocabulary) (analyze doc')
                         = filter (\<lambda>t. t \<in> set vocabulary) (analyze (docs ! i))
                  \<longrightarrow> vectorizer_transform vocabulary [doc'] = Inr [M ! i]))"
proof -
  from validate_vocabulary_ok[OF assms] obtain vocab where
    v: "validate_vocabulary vocabulary = Inr vocab"
    and idx: "\<forall>j<length vocabulary. vocab (vocabulary ! j) = Some j"
    and oov: "\<forall>t. t \<notin> set vocabulary \<longrightarrow> vocab t = None" by blast
  let ?zero = "replicate (length vocabulary) (0 :: nat)"
  let ?row = "\<lambda>doc. count_tokens vocab (analyze doc) ?zero"
  let ?M = "map ?row docs"
  have res: "vectorizer_transform vocabulary ds = Inr (map ?row ds)" for ds
    using v by (simp add: vectorizer_transform_def)
  have bound: "\<forall>t j. vocab t = Some j \<longrightarrow> j < length ?zero"
  proof (intro allI impI)
    fix t j assume tj: "vocab t = Some j"
    then have "t \<in> set vocabulary" using oov by force
    then obtain k where k: "k < length vocabulary" "vocabulary ! k = t"
      by (auto simp: in_set_conv_nth)
    with idx tj have "j = k" by auto
    with k show "j < length ?zero" by simp
  qed
  have len: "length (?row doc) = length vocabulary" for doc
    using count_tokens_length[OF bound] by simp
  have entry: "?row doc ! j = count_list (analyze doc) (vocabulary ! j)"
    if "j < length vocabulary" for doc j
    using count_tokens_entry[OF idx oov assms(2) _ that, of ?zero "analyze doc"] that by simp
  have same: "?row doc' = ?row doc"
    if "filter (\<lambda>t. t \<in> set vocabulary) (analyze doc')
          = filter (\<lambda>t. t \<in> set vocabulary) (analyze doc)" for doc doc'
    using count_tokens_oov[OF oov, of "analyze doc'" ?zero]
      count_tokens_oov[OF oov, of "analyze doc" ?zero] that by simp
  have "length (?M ! i) = length vocabulary
            \<and> (\<forall>j<length vocabulary. ?M ! i ! j = count_list (analyze (docs ! i)) (vocabulary ! j))
            \<and> (docs ! i = [] \<longrightarrow> ?M ! i = ?zero)
            \<and> (\<forall>doc'. filter (\<lambda>t. t \<in> set vocabulary) (analyze doc')
                         = filter (\<lambda>t. t \<in> set vocabulary) (analyze (docs ! i))
                  \<longrightarrow> vectorizer_transform vocabulary [doc'] = Inr [?M ! i])"
    if i: "i < length docs" for i
  proof -
    have r: "?M ! i = ?row (docs ! i)" using i by simp
    have c1: "length (?row (docs ! i)) = length vocabulary" by (rule len)
    have c2: "\<forall>j<length vocabulary.
        ?row (docs ! i) ! j = count_list (analyze (docs ! i)) (vocabulary ! j)"
      using entry by blast
    have c3: "docs ! i = [] \<longrightarrow> ?row (docs ! i) = ?zero" by (auto simp: analyze_empty)
    have c4: "\<forall>doc'. filter (\<lambda>t. t \<in> set vocabulary) (analyze doc')
                         = filter (\<lambda>t. t \<in> set vocabulary) (analyze (docs ! i))
                  \<longrightarrow> vectorizer_transform vocabulary [doc'] = Inr [?row (docs ! i)]"
    proof (intro allI impI)
      fix doc'
      assume "filter (\<lambda>t. t \<in> set vocabulary) (analyze doc')
                = filter (\<lambda>t. t \<in> set vocabulary) (analyze (docs ! i))"
      from same[OF this] show "vectorizer_transform vocabulary [doc'] = Inr [?row (docs ! i)]"
        by (simp add: res)
    qed
    show ?thesis unfolding r using c1 c2 c3 c4 by (intro conjI)
  qed
  then show ?thesis using res[of docs] by (intro exI[of _ ?M]) simp
qed

theorem vectorizer_counts_vocabulary_tokens_witness:
  "[''et'', ''in'', ''non''] \<noteq> [] \<and> distinct [''et'', ''in'', ''non'']
   \<and> vectorizer_transform [''et'', ''in'', ''non''] [''Et in terra, et NON pax'', '''']
       = Inr [[2, 1, 1], [0, 0, 0]]
   \<and> (\<exists>M. vectorizer_transform [''et'', ''in'', ''non''] [''Et in terra, et NON pax'', ''''] = Inr M
        \<and> length M = length [''Et in terra, et NON pax'', '''']
        \<and> (\<forall>i<length [''Et in terra, et NON pax'', ''''].
            length (M ! i) = length [''et'', ''in'', ''non'']
            \<and> (\<forall>j<length [''et'', ''in'', ''non''].
                  M ! i ! j = count_list (analyze ([''Et in terra, et NON pax'', ''''] ! i))
                                ([''et'', ''in'', ''non''] ! j))
            \<and> ([''Et in terra, et NON pax'', ''''] ! i = [] \<longrightarrow>
                  M ! i = replicate (length [''et'', ''in'', ''non'']) 0)
            \<and> (\<forall>doc'. filter (\<lambda>t. t \<in> set [''et'', ''in'', ''non'']) (analyze doc')
                         = filter (\<lambda>t. t \<in> set [''et'', ''in'', ''non''])
                             (analyze ([''Et in terra, et NON pax'', ''''] ! i))
                  \<longrightarrow> vectorizer_transform [''et'', ''in'', ''non''] [doc'] = Inr [M ! i])))"
proof -
  have h1: "[''et'', ''in'', ''non''] \<noteq> []" by simp
  have h2: "distinct [''et'', ''in'', ''non'']" by simp
  have run: "vectorizer_transform [''et'', ''in'', ''non''] [''Et in terra, et NON pax'', '''']
       = Inr [[2, 1, 1], [0, 0, 0]]"
    by code_simp
  from h1 h2 run
    vectorizer_counts_vocabulary_tokens [OF h1 h2, of "[''Et in terra, et NON pax'', '''']"]
  show ?thesis by blast
qed

end
